theory Spec2Isabelle
  imports Main
begin

section \<open>Python values\<close>

text \<open>
  The stack of \<^verbatim>\<open>stack.py\<close> stores arbitrary Python objects. The operations only ever
  apply \<^verbatim>\<open>==\<close> and \<^verbatim>\<open><=\<close> to them, and iterate over the constructor argument. The
  universe below holds \<^verbatim>\<open>None\<close>, the integers, strings, tuples and the float object
  \<^verbatim>\<open>math.nan\<close>: enough to contain the sentinel (a tuple), values that cannot be compared
  (\<^verbatim>\<open>None <= 1\<close> raises TypeError), a value that is not equal to itself
  (\<^verbatim>\<open>nan == nan\<close> is False) and the iterables and non-iterables the constructor tells
  apart. The other floats compare as the numbers they are and are not told apart from
  the integers here.
\<close>

datatype pyval = PNone | PInt int | PStr string | PTuple "pyval list" | PNaN

text \<open>The exceptions that the modelled code can raise.\<close>

datatype error =
    TypeError
  | IncomparableValueError
  | ProtectedValueError
  | EmptyStackPopError
  | AttributeError
  | ValueError
  | IndexError
  | StopIteration

text \<open>\<^verbatim>\<open>class IncomparableValueError(TypeError)\<close>: what \<^verbatim>\<open>except TypeError\<close> catches.\<close>

definition is_TypeError :: "error \<Rightarrow> bool" where
  "is_TypeError e = (e = TypeError \<or> e = IncomparableValueError)"

text \<open>
  Python's \<^verbatim>\<open>==\<close>. It is structural equality, except that \<^verbatim>\<open>nan == nan\<close> is False.
  A tuple is equal to itself also when it contains \<^verbatim>\<open>nan\<close>: tuples compare their items
  by identity first, and \<open>PNaN\<close> is one object.
\<close>

definition py_eq :: "pyval \<Rightarrow> pyval \<Rightarrow> bool" where
  "py_eq a b = (a = b \<and> a \<noteq> PNaN)"

text \<open>Python's \<^verbatim>\<open><=\<close> on strings: lexicographic on the code points.\<close>

fun str_le :: "string \<Rightarrow> string \<Rightarrow> bool" where
  "str_le [] ys = True"
| "str_le (x # xs) [] = False"
| "str_le (x # xs) (y # ys) =
     (if x = y then str_le xs ys else (of_char x :: nat) < of_char y)"

text \<open>
  Python's \<^verbatim>\<open><=\<close>; \<open>None\<close> is the TypeError of an unsupported comparison. Tuples are
  compared at the first position where the items differ (they are the same object or
  \<^verbatim>\<open>==\<close> otherwise), and by length when there is none. Every comparison of \<^verbatim>\<open>nan\<close> with
  a number is False.
\<close>

fun py_le :: "pyval \<Rightarrow> pyval \<Rightarrow> bool option"
  and tuple_le :: "pyval list \<Rightarrow> pyval list \<Rightarrow> bool option" where
  "py_le (PInt a) (PInt b) = Some (a \<le> b)"
| "py_le (PInt a) PNaN = Some False"
| "py_le PNaN (PInt b) = Some False"
| "py_le PNaN PNaN = Some False"
| "py_le (PStr a) (PStr b) = Some (str_le a b)"
| "py_le (PTuple xs) (PTuple ys) = tuple_le xs ys"
| "py_le _ _ = None"
| "tuple_le [] ys = Some True"
| "tuple_le (x # xs) [] = Some False"
| "tuple_le (x # xs) (y # ys) = (if x = y then tuple_le xs ys else py_le x y)"

text \<open>
  \<^verbatim>\<open>for val in values\<close>: the items of an iterable, \<open>None\<close> for the TypeError of an
  object that is not iterable.
\<close>

fun py_iter :: "pyval \<Rightarrow> pyval list option" where
  "py_iter (PTuple xs) = Some xs"
| "py_iter (PStr cs) = Some (map (\<lambda>c. PStr [c]) cs)"
| "py_iter _ = None"

section \<open>Frames and the stack object\<close>

text \<open>
  \<^verbatim>\<open>StackFrame = namedtuple('StackFrame', ['subframe', 'value'])\<close>. The attributes
  \<^verbatim>\<open>top\<close>, \<^verbatim>\<open>top_min\<close> and \<^verbatim>\<open>iter_curr\<close> hold a StackFrame or, below the sentinel, the
  empty tuple \<^verbatim>\<open>()\<close> that is the sentinel's subframe.
\<close>

datatype frame = Unit | StackFrame (subframe: frame) (frame_value: pyval)

text \<open>\<^verbatim>\<open>_SENTINEL = StackFrame(subframe=(), value=None)\<close>\<close>

definition SENTINEL :: frame where
  "SENTINEL = StackFrame Unit PNone"

text \<open>A frame is a tuple: this is the object that \<^verbatim>\<open>==\<close> compares a pushed value with.\<close>

fun as_tuple :: "frame \<Rightarrow> pyval" where
  "as_tuple Unit = PTuple []"
| "as_tuple (StackFrame sub v) = PTuple [as_tuple sub, v]"

text \<open>
  The instance attributes. \<^verbatim>\<open>iter_curr\<close> does not exist before the first call of
  \<^verbatim>\<open>__iter__\<close>. Python's \<^verbatim>\<open>top\<close> is \<open>top_frame\<close> here.
\<close>

record stack =
  top_frame :: frame
  top_min :: frame
  iter_curr :: "frame option"

text \<open>
  A method returns its result, or the exception it raised, together with the object as
  it is left: an exception does not undo the assignments made before it.
\<close>

definition is_empty :: "stack \<Rightarrow> bool" where
  "is_empty s = (top_frame s = SENTINEL)"

definition push :: "stack \<Rightarrow> pyval \<Rightarrow> (error + unit) \<times> stack" where
  "push s new_top =
     (if py_eq new_top (as_tuple SENTINEL) then (Inl ProtectedValueError, s)
      else
        let s1 = s\<lparr>top_frame := StackFrame (top_frame s) new_top\<rparr> in
        if top_min s1 = SENTINEL
        then (Inr (), s1\<lparr>top_min := StackFrame (top_min s1) new_top\<rparr>)
        else
          (case top_min s1 of
             Unit \<Rightarrow> (Inl AttributeError, s1)
           | StackFrame sub_min m \<Rightarrow>
               (case py_le new_top m of
                  None \<Rightarrow> (Inl IncomparableValueError, s1)
                | Some True \<Rightarrow> (Inr (), s1\<lparr>top_min := StackFrame (top_min s1) new_top\<rparr>)
                | Some False \<Rightarrow> (Inr (), s1))))"

definition pop :: "stack \<Rightarrow> (error + pyval) \<times> stack" where
  "pop s =
     (if is_empty s then (Inl EmptyStackPopError, s)
      else
        (case top_frame s of
           Unit \<Rightarrow> (Inl ValueError, s)
         | StackFrame sub old_top \<Rightarrow>
             let s1 = s\<lparr>top_frame := sub\<rparr> in
             (case top_min s1 of
                Unit \<Rightarrow> (Inl AttributeError, s1)
              | StackFrame sub_min m \<Rightarrow>
                  if py_eq m old_top then (Inr old_top, s1\<lparr>top_min := sub_min\<rparr>)
                  else (Inr old_top, s1))))"

definition min_stack :: "stack \<Rightarrow> (error + pyval) \<times> stack" where
  "min_stack s =
     (case top_min s of
        Unit \<Rightarrow> (Inl AttributeError, s)
      | StackFrame sub_min m \<Rightarrow> (Inr m, s))"

text \<open>\<^verbatim>\<open>__iter__\<close> stores the cursor on the object and returns the object itself.\<close>

definition iter_stack :: "stack \<Rightarrow> stack" where
  "iter_stack s = s\<lparr>iter_curr := Some (top_frame s)\<rparr>"

definition next_stack :: "stack \<Rightarrow> (error + pyval) \<times> stack" where
  "next_stack s =
     (case iter_curr s of
        None \<Rightarrow> (Inl AttributeError, s)
      | Some cur \<Rightarrow>
          if cur \<noteq> SENTINEL then
            (case cur of
               Unit \<Rightarrow> (Inl ValueError, s)
             | StackFrame sub next_value \<Rightarrow> (Inr next_value, s\<lparr>iter_curr := Some sub\<rparr>))
          else (Inl StopIteration, s))"

text \<open>The size of what the cursor still has to walk through: the loop's variant.\<close>

definition cursor_size :: "stack \<Rightarrow> nat" where
  "cursor_size s = (case iter_curr s of None \<Rightarrow> 0 | Some cur \<Rightarrow> size cur)"

text \<open>
  \<^verbatim>\<open>list(self)\<close>: \<^verbatim>\<open>__iter__\<close>, then \<^verbatim>\<open>__next__\<close> until it raises StopIteration; any other
  exception ends the loop and is passed on.
\<close>

function list_loop :: "stack \<Rightarrow> pyval list \<Rightarrow> (error + pyval list) \<times> stack" where
  "list_loop s acc =
     (case next_stack s of
        (Inr v, s') \<Rightarrow> list_loop s' (acc @ [v])
      | (Inl e, s') \<Rightarrow> if e = StopIteration then (Inr acc, s') else (Inl e, s'))"
  by pat_completeness auto
termination
  by (relation "measure (\<lambda>(s, acc). cursor_size s)")
     (auto simp: next_stack_def cursor_size_def
           split: option.splits if_splits frame.splits)

definition list_stack :: "stack \<Rightarrow> (error + pyval list) \<times> stack" where
  "list_stack s = list_loop (iter_stack s) []"

definition bottom :: "stack \<Rightarrow> (error + pyval) \<times> stack" where
  "bottom s =
     (if is_empty s then (Inr PNone, s)
      else
        (case list_stack s of
           (Inl e, s') \<Rightarrow> (Inl e, s')
         | (Inr vs, s') \<Rightarrow> if vs = [] then (Inl IndexError, s') else (Inr (last vs), s')))"

text \<open>The loop \<^verbatim>\<open>for val in values: self.push(val)\<close>, left at the first exception.\<close>

fun push_all :: "stack \<Rightarrow> pyval list \<Rightarrow> (error + unit) \<times> stack" where
  "push_all s [] = (Inr (), s)"
| "push_all s (v # vs) =
     (case push s v of
        (Inl e, s') \<Rightarrow> (Inl e, s')
      | (Inr u, s') \<Rightarrow> push_all s' vs)"

text \<open>A constructor that raises produces no object.\<close>

definition constructed :: "(error + unit) \<times> stack \<Rightarrow> error + stack" where
  "constructed r = (case r of (Inl e, s) \<Rightarrow> Inl e | (Inr u, s) \<Rightarrow> Inr s)"

text \<open>
  \<^verbatim>\<open>__init__(self, *values)\<close>: the list is the tuple of positional arguments. The
  \<^verbatim>\<open>try\<close> covers the whole loop, so a TypeError raised by a push inside it (an
  IncomparableValueError is one) is handled like the TypeError of an argument that is
  not iterable: the argument itself is pushed.
\<close>

definition Stack_init :: "pyval list \<Rightarrow> error + stack" where
  "Stack_init values =
     (let s = \<lparr>top_frame = SENTINEL, top_min = SENTINEL, iter_curr = None\<rparr> in
      if values = [] then Inr s
      else if length values \<noteq> 1 then Inl TypeError
      else
        let arg = hd values in
        (case py_iter arg of
           None \<Rightarrow> constructed (push s arg)
         | Some items \<Rightarrow>
             (case push_all s items of
                (Inr u, s') \<Rightarrow> Inr s'
              | (Inl e, s') \<Rightarrow>
                  if is_TypeError e then constructed (push s' arg) else Inl e)))"

section \<open>Sequences of operations and what a stack holds\<close>

text \<open>The chain of frames that holds the values \<open>xs\<close>, the top one first.\<close>

fun chain :: "pyval list \<Rightarrow> frame" where
  "chain [] = SENTINEL"
| "chain (x # xs) = StackFrame (chain xs) x"

text \<open>
  The values present in a chain, from its head down to the sentinel: the linear scan
  that iteration performs.
\<close>

fun frame_values :: "frame \<Rightarrow> pyval list" where
  "frame_values Unit = []"
| "frame_values (StackFrame sub v) =
     (if StackFrame sub v = SENTINEL then [] else v # frame_values sub)"

datatype op = Push pyval | Pop

text \<open>A sequence of pushes and pops, every one of which succeeds.\<close>

fun run_ops :: "stack \<Rightarrow> op list \<Rightarrow> stack option" where
  "run_ops s [] = Some s"
| "run_ops s (Push v # ops) =
     (case push s v of (Inr u, s') \<Rightarrow> run_ops s' ops | (Inl e, s') \<Rightarrow> None)"
| "run_ops s (Pop # ops) =
     (case pop s of (Inr v, s') \<Rightarrow> run_ops s' ops | (Inl e, s') \<Rightarrow> None)"

fun pushed_values :: "op list \<Rightarrow> pyval list" where
  "pushed_values [] = []"
| "pushed_values (Push v # ops) = v # pushed_values ops"
| "pushed_values (Pop # ops) = pushed_values ops"

text \<open>\<open>n\<close> calls of \<^verbatim>\<open>pop\<close>, collecting what they return, left at the first exception.\<close>

fun pop_n :: "nat \<Rightarrow> stack \<Rightarrow> (error + pyval list) \<times> stack" where
  "pop_n 0 s = (Inr [], s)"
| "pop_n (Suc n) s =
     (case pop s of
        (Inl e, s') \<Rightarrow> (Inl e, s')
      | (Inr v, s') \<Rightarrow>
          (case pop_n n s' of
             (Inl e, s'') \<Rightarrow> (Inl e, s'')
           | (Inr vs, s'') \<Rightarrow> (Inr (v # vs), s'')))"

text \<open>
  The values of \<open>V\<close> are totally ordered by \<^verbatim>\<open><=\<close>: any two can be compared, one way
  round at least holds, both ways only for equal values, and the order is transitive.
\<close>

definition totally_ordered :: "pyval set \<Rightarrow> bool" where
  "totally_ordered V =
     ((\<forall>a\<in>V. \<forall>b\<in>V.
         py_le a b \<noteq> None \<and>
         (py_le a b = Some True \<or> py_le b a = Some True) \<and>
         (py_le a b = Some True \<and> py_le b a = Some True \<longrightarrow> a = b)) \<and>
      (\<forall>a\<in>V. \<forall>b\<in>V. \<forall>c\<in>V.
         py_le a b = Some True \<and> py_le b c = Some True \<longrightarrow> py_le a c = Some True))"

text \<open>\<open>m\<close> is the minimum, under \<^verbatim>\<open><=\<close>, of the values \<open>xs\<close>.\<close>

definition is_minimum :: "pyval \<Rightarrow> pyval list \<Rightarrow> bool" where
  "is_minimum m xs = (m \<in> set xs \<and> (\<forall>x\<in>set xs. py_le m x = Some True))"

text \<open>
  The auxiliary chain that successful pushes of \<open>xs\<close> (the last one first) build, and
  the condition under which each of these pushes could compare its value.
\<close>

fun aux_of :: "pyval list \<Rightarrow> pyval list" where
  "aux_of [] = []"
| "aux_of (v # xs) =
     (if aux_of xs = [] \<or> py_le v (hd (aux_of xs)) = Some True
      then v # aux_of xs else aux_of xs)"

fun compared :: "pyval list \<Rightarrow> bool" where
  "compared [] = True"
| "compared (v # xs) =
     ((aux_of xs = [] \<or> py_le v (hd (aux_of xs)) \<noteq> None) \<and> compared xs)"

text \<open>
  The stack \<open>s\<close> holds the values \<open>xs\<close>, the top one first, each of them equal to itself,
  with both chains in step.
\<close>

definition holds :: "stack \<Rightarrow> pyval list \<Rightarrow> bool" where
  "holds s xs =
     (top_frame s = chain xs \<and> top_min s = chain (aux_of xs) \<and> compared xs \<and>
      (\<forall>x\<in>set xs. py_eq x x))"

text \<open>The object that \<^verbatim>\<open>Stack()\<close> constructs.\<close>

definition empty_stack :: stack where
  "empty_stack = \<lparr>top_frame = SENTINEL, top_min = SENTINEL, iter_curr = None\<rparr>"

text \<open>
  The values that a sequence of pushes and pops leaves present, in the order in which
  they were pushed (the first one pushed first), starting from the values \<open>acc\<close>.
\<close>

fun still_present :: "pyval list \<Rightarrow> op list \<Rightarrow> pyval list" where
  "still_present acc [] = acc"
| "still_present acc (Push v # ops) = still_present (acc @ [v]) ops"
| "still_present acc (Pop # ops) = still_present (butlast acc) ops"

text \<open>
  A sequence of pushes and pops, run on a stack of depth \<open>n\<close>, that never removes the
  bottom element: no pop is made at depth one.
\<close>

fun keeps_bottom :: "nat \<Rightarrow> op list \<Rightarrow> bool" where
  "keeps_bottom n [] = True"
| "keeps_bottom n (Push v # ops) = keeps_bottom (Suc n) ops"
| "keeps_bottom n (Pop # ops) = (2 \<le> n \<and> keeps_bottom (n - 1) ops)"

text \<open>The stacks of the scenarios: \<^verbatim>\<open>Stack((10, 9, 11, 0, 10))\<close>, \<^verbatim>\<open>Stack((1, 2, 3))\<close>
  and \<^verbatim>\<open>Stack(1)\<close>, built by pushes on the empty stack.\<close>

definition scenario :: stack where
  "scenario = snd (push_all empty_stack [PInt 10, PInt 9, PInt 11, PInt 0, PInt 10])"

definition three :: stack where
  "three = snd (push_all empty_stack [PInt 1, PInt 2, PInt 3])"

definition one_pushed :: stack where
  "one_pushed = snd (push empty_stack (PInt 1))"

text \<open>
  \<^verbatim>\<open>s = Stack(); s.push(None); s.push(None)\<close>, where the second push raises
  IncomparableValueError (\<^verbatim>\<open>None <= None\<close> is a TypeError), followed by two pops.
\<close>

definition after_failed_push :: stack where
  "after_failed_push = snd (pop_n 2 (snd (push (snd (push empty_stack PNone)) PNone)))"

text \<open>\<^verbatim>\<open>s = Stack(); s.push(math.nan); s.pop()\<close>: both calls succeed.\<close>

definition nan_popped :: stack where
  "nan_popped = snd (pop (snd (push empty_stack PNaN)))"

section \<open>The invariant of the two chains\<close>

text \<open>
  Where \<^verbatim>\<open><=\<close> gives an answer for a value other than \<^verbatim>\<open>nan\<close> and itself, the answer is
  True: such a value, when left off the auxiliary chain, is not equal to the head of that
  chain, so its pop leaves the auxiliary chain alone.
\<close>

lemma str_le_refl: "str_le a a"
  by (induction a) auto

lemma tuple_le_refl: "tuple_le xs xs = Some True"
  by (induction xs) auto

lemma py_le_refl: "py_eq v v \<Longrightarrow> py_le v v \<noteq> Some False"
  by (cases v) (auto simp: py_eq_def str_le_refl tuple_le_refl)

lemma totally_ordered_py_eq: "totally_ordered V \<Longrightarrow> v \<in> V \<Longrightarrow> py_eq v v"
proof -
  assume "totally_ordered V" and "v \<in> V"
  then have "py_le v v = Some True"
    unfolding totally_ordered_def by blast
  then have "v \<noteq> PNaN"
    by auto
  then show ?thesis
    by (simp add: py_eq_def)
qed

text \<open>The chains that pushes build, and the steps of push and pop on them.\<close>

lemma chain_not_Unit: "chain xs \<noteq> Unit"
  by (cases xs) (auto simp: SENTINEL_def)

lemma chain_eq_SENTINEL: "(chain xs = SENTINEL) = (xs = [])"
  by (cases xs) (auto simp: SENTINEL_def chain_not_Unit)

lemma frame_values_chain: "frame_values (chain xs) = xs"
  by (induction xs) (auto simp: SENTINEL_def chain_not_Unit)

lemma aux_of_Nil: "(aux_of xs = []) = (xs = [])"
  by (induction xs) auto

lemma holds_is_empty: "holds s xs \<Longrightarrow> is_empty s = (xs = [])"
  by (simp add: holds_def is_empty_def chain_eq_SENTINEL)

lemma push_ok_chain:
  "top_frame s = chain xs \<Longrightarrow> push s v = (Inr (), s') \<Longrightarrow> top_frame s' = chain (v # xs)"
  by (auto simp: push_def Let_def split: if_splits frame.splits option.splits bool.splits)

lemma pop_ok_chain:
  assumes "top_frame s = chain xs" and "pop s = (Inr v, s')"
  shows "\<exists>ys. xs = v # ys \<and> top_frame s' = chain ys"
proof (cases xs)
  case Nil
  with assms show ?thesis
    by (simp add: pop_def is_empty_def)
next
  case (Cons x ys)
  with assms show ?thesis
    by (auto simp: pop_def Let_def split: if_splits frame.splits)
qed

lemma push_holds:
  assumes "holds s xs" and "v \<noteq> as_tuple SENTINEL" and "py_eq v v"
    and "aux_of xs = [] \<or> py_le v (hd (aux_of xs)) \<noteq> None"
  shows "\<exists>s'. push s v = (Inr (), s') \<and> holds s' (v # xs) \<and> iter_curr s' = iter_curr s"
  using assms
  by (cases "aux_of xs")
     (auto simp: holds_def push_def py_eq_def Let_def chain_eq_SENTINEL chain_not_Unit
           SENTINEL_def split: option.splits bool.splits)

lemma push_ok_holds:
  assumes "holds s xs" and "py_eq v v" and "push s v = (Inr (), s')"
  shows "holds s' (v # xs) \<and> iter_curr s' = iter_curr s"
  using assms
  by (cases "aux_of xs")
     (auto simp: holds_def push_def py_eq_def Let_def chain_eq_SENTINEL chain_not_Unit
           SENTINEL_def split: option.splits bool.splits if_splits)

lemma aux_of_pop:
  assumes "compared (v # xs)" and "py_eq v v" and "aux_of (v # xs) = m # ms"
  shows "(if py_eq m v then ms else m # ms) = aux_of xs"
proof (cases "aux_of xs = [] \<or> py_le v (hd (aux_of xs)) = Some True")
  case True
  with assms(3) have "m = v" "ms = aux_of xs"
    by auto
  with assms(2) show ?thesis
    by simp
next
  case False
  with assms(3) have a: "aux_of xs = m # ms"
    by auto
  with False assms(1) have "py_le v m = Some False"
    by auto
  with py_le_refl [OF assms(2)] have "m \<noteq> v"
    by auto
  with a show ?thesis
    by (simp add: py_eq_def)
qed

lemma pop_holds:
  assumes "holds s (v # xs)"
  shows "\<exists>s'. pop s = (Inr v, s') \<and> holds s' xs \<and> iter_curr s' = iter_curr s"
proof -
  from assms have tf: "top_frame s = StackFrame (chain xs) v"
    and tm: "top_min s = chain (aux_of (v # xs))"
    and c: "compared (v # xs)" and e: "py_eq v v" and es: "\<forall>x\<in>set xs. py_eq x x"
    by (simp_all add: holds_def)
  have "aux_of (v # xs) \<noteq> []"
    by (simp add: aux_of_Nil)
  then obtain m ms where a: "aux_of (v # xs) = m # ms"
    by (cases "aux_of (v # xs)") auto
  from aux_of_pop [OF c e a] have k: "(if py_eq m v then ms else m # ms) = aux_of xs" .
  from tm a have tm': "top_min s = StackFrame (chain ms) m"
    by simp
  have ne: "\<not> is_empty s"
    by (simp add: is_empty_def tf SENTINEL_def chain_not_Unit)
  let ?s' = "s\<lparr>top_frame := chain xs, top_min := chain (aux_of xs)\<rparr>"
  have "pop s = (Inr v, ?s')"
  proof (cases "py_eq m v")
    case True
    with k have "ms = aux_of xs"
      by simp
    with True ne tf tm' show ?thesis
      by (simp add: pop_def)
  next
    case False
    with k have "m # ms = aux_of xs"
      by simp
    then have "chain (aux_of xs) = StackFrame (chain ms) m"
      by (metis chain.simps(2))
    with False ne tf tm' show ?thesis
      by (simp add: pop_def)
  qed
  moreover have "holds ?s' xs"
    using c es by (simp add: holds_def)
  ultimately show ?thesis
    by auto
qed

lemma pop_ok_holds:
  assumes "holds s xs" "pop s = (Inr v, s')"
  shows "\<exists>ys. xs = v # ys \<and> holds s' ys \<and> iter_curr s' = iter_curr s"
proof (cases xs)
  case Nil
  with assms show ?thesis by (simp add: holds_def pop_def is_empty_def)
next
  case (Cons x ys)
  with assms(1) pop_holds [of s x ys] assms(2) show ?thesis by auto
qed

lemma run_ops_holds:
  "holds s xs \<Longrightarrow> \<forall>v\<in>set (pushed_values ops). py_eq v v \<Longrightarrow> run_ops s ops = Some t \<Longrightarrow>
   \<exists>ys. holds t ys \<and> set ys \<subseteq> set xs \<union> set (pushed_values ops)"
proof (induction ops arbitrary: s xs)
  case Nil
  then show ?case
    by auto
next
  case (Cons a ops)
  show ?case
  proof (cases a)
    case (Push v)
    with Cons.prems(3) obtain s' where p: "push s v = (Inr (), s')"
        and r: "run_ops s' ops = Some t"
      by (auto split: prod.splits sum.splits)
    from Cons.prems(2) Push have e: "py_eq v v" "\<forall>v\<in>set (pushed_values ops). py_eq v v"
      by auto
    from push_ok_holds [OF Cons.prems(1) e(1) p] have "holds s' (v # xs)"
      by simp
    from Cons.IH [OF this e(2) r] Push show ?thesis
      by auto
  next
    case Pop
    with Cons.prems(3) obtain v s' where p: "pop s = (Inr v, s')"
        and r: "run_ops s' ops = Some t"
      by (auto split: prod.splits sum.splits)
    from Cons.prems(2) Pop have e: "\<forall>v\<in>set (pushed_values ops). py_eq v v"
      by auto
    from pop_ok_holds [OF Cons.prems(1) p] obtain ys where ys: "xs = v # ys" "holds s' ys"
      by auto
    from Cons.IH [OF ys(2) e r] ys(1) Pop show ?thesis
      by auto
  qed
qed

lemma aux_of_subset: "set (aux_of xs) \<subseteq> set xs"
  by (induction xs) auto

lemma hd_aux_of_mem: "xs \<noteq> [] \<Longrightarrow> hd (aux_of xs) \<in> set xs"
  using aux_of_subset [of xs] aux_of_Nil [of xs] by (cases "aux_of xs") auto

lemma aux_of_min:
  assumes "totally_ordered V" "set xs \<subseteq> V" "xs \<noteq> []"
  shows "is_minimum (hd (aux_of xs)) xs"
  using assms(2,3)
proof (induction xs)
  case Nil
  then show ?case by simp
next
  case (Cons v xs)
  have vV: "v \<in> V" using Cons.prems by simp
  have refl: "py_le v v = Some True"
    using assms(1) vV unfolding totally_ordered_def by blast
  show ?case
  proof (cases "xs = []")
    case True
    then show ?thesis by (simp add: is_minimum_def refl)
  next
    case False
    let ?m = "hd (aux_of xs)"
    have IH: "is_minimum ?m xs" using Cons False by simp
    then have mV: "?m \<in> V" using Cons.prems by (auto simp: is_minimum_def)
    have ne: "aux_of xs \<noteq> []" using False by (simp add: aux_of_Nil)
    show ?thesis
    proof (cases "py_le v ?m = Some True")
      case True
      have "py_le v x = Some True" if "x \<in> set xs" for x
      proof -
        have "py_le ?m x = Some True" using IH that by (simp add: is_minimum_def)
        moreover have "x \<in> V" using that Cons.prems by auto
        ultimately show ?thesis
          using assms(1) vV mV True unfolding totally_ordered_def by blast
      qed
      with True refl show ?thesis by (simp add: is_minimum_def)
    next
      case F: False
      then have "py_le ?m v = Some True"
        using assms(1) vV mV unfolding totally_ordered_def by blast
      with F ne IH show ?thesis by (simp add: is_minimum_def)
    qed
  qed
qed

lemma holds_init: "Stack_init [] = Inr s \<Longrightarrow> holds s []"
  by (auto simp: Stack_init_def holds_def)

lemma chain_init: "Stack_init [] = Inr s \<Longrightarrow> top_frame s = chain []"
  by (auto simp: Stack_init_def)

lemma push_all_holds:
  assumes "totally_ordered V"
  shows "holds s xs \<Longrightarrow> set xs \<subseteq> V \<Longrightarrow> set vs \<subseteq> V \<Longrightarrow> as_tuple SENTINEL \<notin> set vs \<Longrightarrow>
         \<exists>s'. push_all s vs = (Inr (), s') \<and> holds s' (rev vs @ xs) \<and> iter_curr s' = iter_curr s"
proof (induction vs arbitrary: s xs)
  case Nil
  then show ?case by simp
next
  case (Cons v vs)
  have cmp: "aux_of xs = [] \<or> py_le v (hd (aux_of xs)) \<noteq> None"
  proof (cases "xs = []")
    case True
    then show ?thesis by simp
  next
    case False
    then have "hd (aux_of xs) \<in> V" using hd_aux_of_mem [of xs] Cons.prems(2) by auto
    moreover have "v \<in> V" using Cons.prems(3) by simp
    ultimately show ?thesis using assms unfolding totally_ordered_def by blast
  qed
  have nv: "v \<noteq> as_tuple SENTINEL" using Cons.prems(4) by auto
  have ev: "py_eq v v"
    using totally_ordered_py_eq [OF assms, of v] Cons.prems(3) by simp
  from push_holds [OF Cons.prems(1) nv ev cmp]
  obtain s1 where s1: "push s v = (Inr (), s1)" "holds s1 (v # xs)" "iter_curr s1 = iter_curr s"
    by auto
  have "set (v # xs) \<subseteq> V" using Cons.prems(2,3) by simp
  from Cons.IH [OF s1(2) this] Cons.prems(3,4)
  obtain s' where "push_all s1 vs = (Inr (), s')" "holds s' (rev vs @ v # xs)"
      "iter_curr s' = iter_curr s1" by auto
  with s1 show ?case by simp
qed

lemma pop_n_holds:
  "holds s (xs @ ys) \<Longrightarrow>
   \<exists>s'. pop_n (length xs) s = (Inr xs, s') \<and> holds s' ys \<and> iter_curr s' = iter_curr s"
proof (induction xs arbitrary: s)
  case Nil
  then show ?case by simp
next
  case (Cons x xs)
  from pop_holds [of s x "xs @ ys"] Cons.prems
  obtain s1 where s1: "pop s = (Inr x, s1)" "holds s1 (xs @ ys)" "iter_curr s1 = iter_curr s"
    by auto
  from Cons.IH [OF s1(2)] obtain s' where
    "pop_n (length xs) s1 = (Inr xs, s')" "holds s' ys" "iter_curr s' = iter_curr s1" by auto
  with s1 show ?case by simp
qed

lemma list_loop_chain:
  "iter_curr s = Some (chain xs) \<Longrightarrow>
   list_loop s acc = (Inr (acc @ xs), s\<lparr>iter_curr := Some SENTINEL\<rparr>)"
proof (induction xs arbitrary: s acc)
  case Nil
  then have "next_stack s = (Inl StopIteration, s)" by (simp add: next_stack_def)
  moreover have "s\<lparr>iter_curr := Some SENTINEL\<rparr> = s" using Nil by simp
  ultimately show ?case by (subst list_loop.simps) simp
next
  case (Cons x xs)
  let ?s1 = "s\<lparr>iter_curr := Some (chain xs)\<rparr>"
  have n: "next_stack s = (Inr x, ?s1)"
    using Cons.prems by (simp add: next_stack_def SENTINEL_def chain_not_Unit)
  have "list_loop ?s1 (acc @ [x]) = (Inr ((acc @ [x]) @ xs), ?s1\<lparr>iter_curr := Some SENTINEL\<rparr>)"
    by (rule Cons.IH) simp
  with n show ?case by (subst list_loop.simps) simp
qed

lemma list_stack_chain:
  "top_frame s = chain xs \<Longrightarrow> list_stack s = (Inr xs, s\<lparr>iter_curr := Some SENTINEL\<rparr>)"
  using list_loop_chain [of "iter_stack s" xs "[]"] by (simp add: list_stack_def iter_stack_def)

lemma bottom_chain:
  "top_frame s = chain xs \<Longrightarrow>
   bottom s = (if xs = [] then (Inr PNone, s) else (Inr (last xs), s\<lparr>iter_curr := Some SENTINEL\<rparr>))"
  by (simp add: bottom_def is_empty_def chain_eq_SENTINEL list_stack_chain)

lemma run_ops_present:
  "top_frame s = chain xs \<Longrightarrow> run_ops s ops = Some t \<Longrightarrow>
   top_frame t = chain (rev (still_present (rev xs) ops))"
proof (induction ops arbitrary: s xs)
  case Nil
  then show ?case
    by simp
next
  case (Cons a ops)
  show ?case
  proof (cases a)
    case (Push v)
    with Cons.prems(2) obtain s' where p: "push s v = (Inr (), s')"
        and r: "run_ops s' ops = Some t"
      by (auto split: prod.splits sum.splits)
    from push_ok_chain [OF Cons.prems(1) p] have "top_frame s' = chain (v # xs)" .
    from Cons.IH [OF this r] Push show ?thesis
      by simp
  next
    case Pop
    with Cons.prems(2) obtain v s' where p: "pop s = (Inr v, s')"
        and r: "run_ops s' ops = Some t"
      by (auto split: prod.splits sum.splits)
    from pop_ok_chain [OF Cons.prems(1) p]
    obtain ys where ys: "xs = v # ys" "top_frame s' = chain ys"
      by auto
    from Cons.IH [OF ys(2) r] ys(1) Pop show ?thesis
      by simp
  qed
qed

lemma run_ops_keeps_bottom:
  "top_frame s = chain xs \<Longrightarrow> xs \<noteq> [] \<Longrightarrow> run_ops s ops = Some t \<Longrightarrow>
   keeps_bottom (length xs) ops \<Longrightarrow>
   \<exists>ys. top_frame t = chain ys \<and> ys \<noteq> [] \<and> last ys = last xs"
proof (induction ops arbitrary: s xs)
  case Nil
  then show ?case
    by auto
next
  case (Cons a ops)
  show ?case
  proof (cases a)
    case (Push v)
    with Cons.prems(3) obtain s' where p: "push s v = (Inr (), s')"
        and r: "run_ops s' ops = Some t"
      by (auto split: prod.splits sum.splits)
    from push_ok_chain [OF Cons.prems(1) p] have h: "top_frame s' = chain (v # xs)" .
    have "keeps_bottom (length (v # xs)) ops"
      using Cons.prems(4) Push by simp
    from Cons.IH [OF h _ r this] Cons.prems(2) show ?thesis
      by auto
  next
    case Pop
    with Cons.prems(3) obtain v s' where p: "pop s = (Inr v, s')"
        and r: "run_ops s' ops = Some t"
      by (auto split: prod.splits sum.splits)
    from pop_ok_chain [OF Cons.prems(1) p]
    obtain ys where ys: "xs = v # ys" "top_frame s' = chain ys"
      by auto
    have k: "2 \<le> length xs" "keeps_bottom (length xs - 1) ops"
      using Cons.prems(4) Pop by auto
    then have ne: "ys \<noteq> []"
      using ys(1) by auto
    have "keeps_bottom (length ys) ops"
      using k(2) ys(1) by simp
    from Cons.IH [OF ys(2) ne r this] ys(1) ne show ?thesis
      by auto
  qed
qed

lemma Stack_init_sequence:
  assumes "totally_ordered (set S)" "as_tuple SENTINEL \<notin> set S"
  shows "\<exists>s. Stack_init [PTuple S] = Inr s \<and> holds s (rev S) \<and> iter_curr s = None"
proof -
  have "holds empty_stack []"
    by (simp add: holds_def empty_stack_def)
  from push_all_holds [OF assms(1) this _ _ assms(2)]
  obtain s where "push_all empty_stack S = (Inr (), s)" "holds s (rev S @ [])"
      "iter_curr s = iter_curr empty_stack"
    by auto
  then show ?thesis
    by (simp add: Stack_init_def empty_stack_def)
qed

lemma list_stack_twice:
  assumes "top_frame t = chain ys"
  shows "\<exists>t1 t2. list_stack t = (Inr ys, t1) \<and> list_stack t1 = (Inr ys, t2) \<and>
           top_frame t1 = top_frame t \<and> top_min t1 = top_min t \<and>
           top_frame t2 = top_frame t \<and> top_min t2 = top_min t"
proof -
  let ?t1 = "t\<lparr>iter_curr := Some SENTINEL\<rparr>"
  note c = assms
  then have "list_stack t = (Inr ys, ?t1)"
    by (rule list_stack_chain)
  moreover have "list_stack ?t1 = (Inr ys, ?t1\<lparr>iter_curr := Some SENTINEL\<rparr>)"
    by (rule list_stack_chain) (simp add: c)
  ultimately show ?thesis
    by simp
qed

section \<open>The minimum\<close>

text \<open>
  C1. A stack is built from the empty one by pushes and pops that all succeed, and the
  values pushed are totally ordered by \<^verbatim>\<open><=\<close>. Whenever such a stack is not empty,
  \<^verbatim>\<open>min()\<close> returns, without changing the stack, the minimum under \<^verbatim>\<open><=\<close> of the values
  that a scan of the main chain finds.
\<close>

theorem min_is_minimum:
  assumes "Stack_init [] = Inr s0" and "run_ops s0 ops = Some s"
    and "totally_ordered (set (pushed_values ops))" and "\<not> is_empty s"
  shows "\<exists>m. min_stack s = (Inr m, s) \<and> is_minimum m (frame_values (top_frame s))"
proof -
  have "\<forall>v\<in>set (pushed_values ops). py_eq v v"
    using totally_ordered_py_eq [OF assms(3)] by blast
  from run_ops_holds [OF holds_init [OF assms(1)] this assms(2)]
  obtain ys where ys: "holds s ys" "set ys \<subseteq> set (pushed_values ops)"
    by auto
  from ys(1) assms(4) have ne: "ys \<noteq> []"
    by (simp add: holds_is_empty)
  from aux_of_min [OF assms(3) ys(2) ne] have m: "is_minimum (hd (aux_of ys)) ys" .
  from ne have "aux_of ys \<noteq> []"
    by (simp add: aux_of_Nil)
  then obtain m ms where a: "aux_of ys = m # ms"
    by (cases "aux_of ys") auto
  with ys(1) have "min_stack s = (Inr m, s)"
    by (simp add: min_stack_def holds_def)
  moreover have "frame_values (top_frame s) = ys"
    using ys(1) by (simp add: holds_def frame_values_chain)
  ultimately show ?thesis
    using m a by auto
qed

theorem min_is_minimum_witness:
  "Stack_init [] = Inr empty_stack \<and>
   run_ops empty_stack [Push (PInt 3), Push (PInt 1), Push (PInt 2), Pop] =
     Some \<lparr>top_frame = chain [PInt 1, PInt 3], top_min = chain [PInt 1, PInt 3],
           iter_curr = None\<rparr> \<and>
   totally_ordered (set (pushed_values [Push (PInt 3), Push (PInt 1), Push (PInt 2), Pop])) \<and>
   \<not> is_empty \<lparr>top_frame = chain [PInt 1, PInt 3], top_min = chain [PInt 1, PInt 3],
                 iter_curr = None\<rparr> \<and>
   (\<exists>m. min_stack \<lparr>top_frame = chain [PInt 1, PInt 3], top_min = chain [PInt 1, PInt 3],
                    iter_curr = None\<rparr> =
          (Inr m, \<lparr>top_frame = chain [PInt 1, PInt 3], top_min = chain [PInt 1, PInt 3],
                    iter_curr = None\<rparr>) \<and>
        is_minimum m [PInt 1, PInt 3])"
proof -
  let ?ops = "[Push (PInt 3), Push (PInt 1), Push (PInt 2), Pop]"
  let ?s = "\<lparr>top_frame = chain [PInt 1, PInt 3], top_min = chain [PInt 1, PInt 3],
              iter_curr = None\<rparr>"
  have h1: "Stack_init [] = Inr empty_stack"
    by (simp add: Stack_init_def empty_stack_def)
  have h2: "run_ops empty_stack ?ops = Some ?s"
    by (simp add: empty_stack_def push_def pop_def py_eq_def is_empty_def SENTINEL_def)
  have h3: "totally_ordered (set (pushed_values ?ops))"
    by (auto simp: totally_ordered_def)
  have h4: "\<not> is_empty ?s"
    by (simp add: is_empty_def SENTINEL_def)
  have "frame_values (top_frame ?s) = [PInt 1, PInt 3]"
    by (simp add: SENTINEL_def)
  with min_is_minimum [OF h1 h2 h3 h4] h1 h2 h3 h4 show ?thesis
    by simp
qed

text \<open>
  C9, as the code has it. A stack is built from the empty one by pushes and pops that
  all succeed, of values that are each equal to themselves under \<^verbatim>\<open>==\<close> (so not
  \<^verbatim>\<open>nan\<close>). When it is empty, \<^verbatim>\<open>min()\<close> raises nothing: it returns \<^verbatim>\<open>None\<close>, the value of
  the sentinel frame, and leaves the stack as it is.
\<close>

theorem min_empty_is_None:
  assumes "Stack_init [] = Inr s0" and "run_ops s0 ops = Some s"
    and "\<forall>v\<in>set (pushed_values ops). py_eq v v" and "is_empty s"
  shows "min_stack s = (Inr PNone, s)"
proof -
  from run_ops_holds [OF holds_init [OF assms(1)] assms(3) assms(2)]
  obtain ys where ys: "holds s ys"
    by auto
  with assms(4) have "ys = []"
    by (simp add: holds_is_empty)
  with ys show ?thesis
    by (simp add: holds_def min_stack_def SENTINEL_def)
qed

theorem min_empty_is_None_witness:
  "Stack_init [] = Inr empty_stack \<and>
   run_ops empty_stack [Push (PInt 4), Push (PInt 2), Pop, Pop] = Some empty_stack \<and>
   pushed_values [Push (PInt 4), Push (PInt 2), Pop, Pop] = [PInt 4, PInt 2] \<and>
   py_eq (PInt 4) (PInt 4) \<and> py_eq (PInt 2) (PInt 2) \<and>
   is_empty empty_stack \<and>
   min_stack empty_stack = (Inr PNone, empty_stack)"
proof -
  have h1: "Stack_init [] = Inr empty_stack"
    by (simp add: Stack_init_def empty_stack_def)
  have h2: "run_ops empty_stack [Push (PInt 4), Push (PInt 2), Pop, Pop] = Some empty_stack"
    by (simp add: empty_stack_def push_def pop_def py_eq_def is_empty_def SENTINEL_def)
  have h3: "\<forall>v\<in>set (pushed_values [Push (PInt 4), Push (PInt 2), Pop, Pop]). py_eq v v"
    by (simp add: py_eq_def)
  have h4: "is_empty empty_stack"
    by (simp add: is_empty_def empty_stack_def)
  from min_empty_is_None [OF h1 h2 h3 h4] h1 h2 h4 show ?thesis
    by (simp add: py_eq_def)
qed

text \<open>
  C9, as the claim words it: on every empty stack \<^verbatim>\<open>min()\<close> would raise nothing and
  return \<^verbatim>\<open>None\<close>. After \<^verbatim>\<open>push(nan)\<close> and \<^verbatim>\<open>pop()\<close>, which both succeed, the stack
  is empty, and \<^verbatim>\<open>min()\<close> returns \<^verbatim>\<open>nan\<close>: the pop compares \<^verbatim>\<open>nan == nan\<close>, which is
  False, and leaves the frame of \<^verbatim>\<open>nan\<close> on the auxiliary chain. After a push that raised
  IncomparableValueError, the stack emptied by pops has the empty tuple for \<^verbatim>\<open>top_min\<close>,
  and \<^verbatim>\<open>min()\<close> raises AttributeError.
\<close>

theorem min_empty_not_None:
  "fst (push empty_stack PNaN) = Inr () \<and>
   fst (pop (snd (push empty_stack PNaN))) = Inr PNaN \<and>
   is_empty nan_popped \<and>
   fst (min_stack nan_popped) = Inr PNaN \<and>
   fst (min_stack nan_popped) \<noteq> Inr PNone \<and>
   is_empty after_failed_push \<and>
   fst (min_stack after_failed_push) = Inl AttributeError"
  by (simp add: nan_popped_def after_failed_push_def empty_stack_def push_def pop_def
        py_eq_def min_stack_def is_empty_def SENTINEL_def eval_nat_numeral)

section \<open>Failing operations\<close>

text \<open>
  C4. In every state of the stack, \<^verbatim>\<open>pop()\<close> on an empty stack raises
  EmptyStackPopError and a push of the sentinel raises ProtectedValueError; both leave
  the stack unchanged.
\<close>

theorem failing_pop_and_push_sentinel:
  "(is_empty s \<longrightarrow> pop s = (Inl EmptyStackPopError, s)) \<and>
   push s (as_tuple SENTINEL) = (Inl ProtectedValueError, s)"
  by (simp add: pop_def push_def py_eq_def SENTINEL_def)

theorem failing_pop_and_push_sentinel_witness:
  "is_empty empty_stack \<and>
   pop empty_stack = (Inl EmptyStackPopError, empty_stack) \<and>
   push empty_stack (PTuple [PTuple [], PNone]) = (Inl ProtectedValueError, empty_stack)"
proof -
  have h: "is_empty empty_stack"
    by (simp add: is_empty_def empty_stack_def)
  from failing_pop_and_push_sentinel [of empty_stack] h show ?thesis
    by (simp add: SENTINEL_def)
qed

text \<open>
  C8. A constructor call with two or more positional arguments raises the TypeError
  that reports the number of arguments (the specification's InvalidArgumentCount), and
  constructs no stack.
\<close>

theorem init_too_many_arguments:
  "2 \<le> length values \<Longrightarrow> Stack_init values = Inl TypeError"
  by (auto simp: Stack_init_def Let_def)

theorem init_too_many_arguments_witness:
  "2 \<le> length [PInt 1, PInt 2] \<and> Stack_init [PInt 1, PInt 2] = Inl TypeError"
proof -
  have h: "2 \<le> length [PInt 1, PInt 2]"
    by simp
  from init_too_many_arguments [OF h] h show ?thesis
    by simp
qed

text \<open>
  C3. The push of a value that cannot be compared with the current minimum: on the
  stack that holds 1, \<^verbatim>\<open>push(None)\<close> raises IncomparableValueError, yet the frame of
  \<^verbatim>\<open>None\<close> is on the main chain afterwards (the next \<^verbatim>\<open>pop()\<close> returns it) while the
  auxiliary chain is as before. The failed push has changed the stack.
\<close>

theorem push_incomparable_changes_stack:
  "fst (push one_pushed PNone) = Inl IncomparableValueError \<and>
   top_frame (snd (push one_pushed PNone)) = StackFrame (top_frame one_pushed) PNone \<and>
   top_frame (snd (push one_pushed PNone)) \<noteq> top_frame one_pushed \<and>
   top_min (snd (push one_pushed PNone)) = top_min one_pushed \<and>
   frame_values (top_frame one_pushed) = [PInt 1] \<and>
   frame_values (top_frame (snd (push one_pushed PNone))) = [PNone, PInt 1] \<and>
   fst (pop (snd (push one_pushed PNone))) = Inr PNone"
  by (simp add: one_pushed_def empty_stack_def push_def pop_def py_eq_def is_empty_def SENTINEL_def)

text \<open>
  What a failed push leads to: after \<^verbatim>\<open>push(None)\<close>, a second \<^verbatim>\<open>push(None)\<close> that raises
  IncomparableValueError, and two pops (both succeed and return \<^verbatim>\<open>None\<close>), the stack is
  empty, \<^verbatim>\<open>top_min\<close> is the empty tuple below the sentinel, and \<^verbatim>\<open>min()\<close> raises
  AttributeError.
\<close>

lemma min_after_failed_push:
  "fst (push empty_stack PNone) = Inr () \<and>
   fst (push (snd (push empty_stack PNone)) PNone) = Inl IncomparableValueError \<and>
   fst (pop_n 2 (snd (push (snd (push empty_stack PNone)) PNone))) = Inr [PNone, PNone] \<and>
   is_empty after_failed_push \<and>
   top_min after_failed_push = Unit \<and>
   fst (min_stack after_failed_push) = Inl AttributeError"
  by (simp add: after_failed_push_def empty_stack_def push_def pop_def py_eq_def min_stack_def
        is_empty_def SENTINEL_def eval_nat_numeral)

section \<open>Construction, popping and iteration\<close>

text \<open>
  C2. For a finite sequence \<open>S\<close> of values that are totally ordered by \<^verbatim>\<open><=\<close>, none of
  them the sentinel, the constructor called with \<open>S\<close> succeeds, and \<open>length S\<close> calls of
  \<^verbatim>\<open>pop()\<close> on the stack it makes all succeed, return the values of \<open>S\<close> in reverse
  order and leave the stack empty.
\<close>

theorem init_then_pop_reverses:
  assumes "totally_ordered (set S)" and "as_tuple SENTINEL \<notin> set S"
  shows "\<exists>s s'. Stack_init [PTuple S] = Inr s \<and>
           pop_n (length S) s = (Inr (rev S), s') \<and> is_empty s'"
proof -
  from Stack_init_sequence [OF assms]
  obtain s where s: "Stack_init [PTuple S] = Inr s" "holds s (rev S)"
    by auto
  from pop_n_holds [of s "rev S" "[]"] s(2)
  obtain s' where "pop_n (length S) s = (Inr (rev S), s')" "holds s' []"
    by auto
  with s(1) show ?thesis
    by (auto simp: holds_is_empty)
qed

theorem init_then_pop_reverses_witness:
  "totally_ordered (set [PInt 3, PInt 1, PInt 2]) \<and>
   as_tuple SENTINEL \<notin> set [PInt 3, PInt 1, PInt 2] \<and>
   (\<exists>s s'. Stack_init [PTuple [PInt 3, PInt 1, PInt 2]] = Inr s \<and>
      pop_n 3 s = (Inr [PInt 2, PInt 1, PInt 3], s') \<and> is_empty s')"
proof -
  have h1: "totally_ordered (set [PInt 3, PInt 1, PInt 2])"
    by (auto simp: totally_ordered_def)
  have h2: "as_tuple SENTINEL \<notin> set [PInt 3, PInt 1, PInt 2]"
    by (simp add: SENTINEL_def)
  from init_then_pop_reverses [OF h1 h2] h1 h2 show ?thesis
    by (simp add: eval_nat_numeral del: pop_n.simps)
qed

text \<open>
  C6. For a finite sequence \<open>S\<close> of totally ordered values, none of them the sentinel,
  \<^verbatim>\<open>list(Stack(S))\<close> is the reverse of \<open>S\<close>. On that stack, and on every stack that
  successful pushes and pops make of it, two full iterations in succession yield the same
  sequence, and neither changes \<^verbatim>\<open>top\<close> or \<^verbatim>\<open>top_min\<close>.
\<close>

theorem iteration_reversed_and_restartable:
  assumes "totally_ordered (set S)" and "as_tuple SENTINEL \<notin> set S"
  shows "\<exists>s. Stack_init [PTuple S] = Inr s \<and> fst (list_stack s) = Inr (rev S) \<and>
           (\<forall>ops t. run_ops s ops = Some t \<longrightarrow>
              (\<exists>vs t1 t2. list_stack t = (Inr vs, t1) \<and> list_stack t1 = (Inr vs, t2) \<and>
                 top_frame t1 = top_frame t \<and> top_min t1 = top_min t \<and>
                 top_frame t2 = top_frame t \<and> top_min t2 = top_min t))"
proof -
  from Stack_init_sequence [OF assms]
  obtain s where s: "Stack_init [PTuple S] = Inr s" "holds s (rev S)"
    by auto
  from s(2) have c: "top_frame s = chain (rev S)"
    by (simp add: holds_def)
  from list_stack_twice [OF c] have l: "fst (list_stack s) = Inr (rev S)"
    by auto
  have "\<exists>vs t1 t2. list_stack t = (Inr vs, t1) \<and> list_stack t1 = (Inr vs, t2) \<and>
          top_frame t1 = top_frame t \<and> top_min t1 = top_min t \<and>
          top_frame t2 = top_frame t \<and> top_min t2 = top_min t"
    if "run_ops s ops = Some t" for ops t
  proof -
    from run_ops_present [OF c that]
    have "top_frame t = chain (rev (still_present (rev (rev S)) ops))" .
    from list_stack_twice [OF this] show ?thesis
      by blast
  qed
  with s(1) l show ?thesis
    by blast
qed

theorem iteration_reversed_and_restartable_witness:
  "totally_ordered (set [PInt 3, PInt 1, PInt 2]) \<and>
   as_tuple SENTINEL \<notin> set [PInt 3, PInt 1, PInt 2] \<and>
   (\<exists>s. Stack_init [PTuple [PInt 3, PInt 1, PInt 2]] = Inr s \<and>
      fst (list_stack s) = Inr [PInt 2, PInt 1, PInt 3] \<and>
      (\<exists>t. run_ops s [Pop, Push (PInt 5)] = Some t \<and>
         (\<exists>vs t1 t2. list_stack t = (Inr vs, t1) \<and> list_stack t1 = (Inr vs, t2) \<and>
            top_frame t1 = top_frame t \<and> top_min t1 = top_min t \<and>
            top_frame t2 = top_frame t \<and> top_min t2 = top_min t)))"
proof -
  have h1: "totally_ordered (set [PInt 3, PInt 1, PInt 2])"
    by (auto simp: totally_ordered_def)
  have h2: "as_tuple SENTINEL \<notin> set [PInt 3, PInt 1, PInt 2]"
    by (simp add: SENTINEL_def)
  from iteration_reversed_and_restartable [OF h1 h2]
  obtain s where s: "Stack_init [PTuple [PInt 3, PInt 1, PInt 2]] = Inr s"
      "fst (list_stack s) = Inr (rev [PInt 3, PInt 1, PInt 2])"
      "\<forall>ops t. run_ops s ops = Some t \<longrightarrow>
              (\<exists>vs t1 t2. list_stack t = (Inr vs, t1) \<and> list_stack t1 = (Inr vs, t2) \<and>
                 top_frame t1 = top_frame t \<and> top_min t1 = top_min t \<and>
                 top_frame t2 = top_frame t \<and> top_min t2 = top_min t)"
    by blast
  from s(1) have "\<exists>t. run_ops s [Pop, Push (PInt 5)] = Some t"
    by (auto simp: Stack_init_def push_def pop_def py_eq_def is_empty_def SENTINEL_def)
  then obtain t where t: "run_ops s [Pop, Push (PInt 5)] = Some t"
    by blast
  with s(3) have "\<exists>vs t1 t2. list_stack t = (Inr vs, t1) \<and> list_stack t1 = (Inr vs, t2) \<and>
            top_frame t1 = top_frame t \<and> top_min t1 = top_min t \<and>
            top_frame t2 = top_frame t \<and> top_min t2 = top_min t"
    by blast
  with t s(1,2) h1 h2 show ?thesis
    by auto
qed

text \<open>
  C10. The cursor of an iteration is the attribute \<^verbatim>\<open>iter_curr\<close> of the stack itself.
  On the stack built from 1, 2, 3: an iteration yields 3 and, left alone, 2 next. When
  after the 3 a second iteration is started, the next value is 3 again; when instead
  \<^verbatim>\<open>bottom()\<close> or \<^verbatim>\<open>list()\<close> is called, the first iteration is over: it raises
  StopIteration. Interleaved iterations over one stack are not independent.
\<close>

theorem interleaved_iterations_share_cursor:
  "fst (next_stack (iter_stack three)) = Inr (PInt 3) \<and>
   fst (next_stack (snd (next_stack (iter_stack three)))) = Inr (PInt 2) \<and>
   fst (next_stack (iter_stack (snd (next_stack (iter_stack three))))) = Inr (PInt 3) \<and>
   fst (bottom (snd (next_stack (iter_stack three)))) = Inr (PInt 1) \<and>
   fst (next_stack (snd (bottom (snd (next_stack (iter_stack three)))))) = Inl StopIteration \<and>
   fst (next_stack (snd (list_stack (snd (next_stack (iter_stack three)))))) = Inl StopIteration"
proof -
  have t: "three = \<lparr>top_frame = chain [PInt 3, PInt 2, PInt 1], top_min = chain [PInt 1],
                     iter_curr = None\<rparr>"
    by (simp add: three_def empty_stack_def push_def py_eq_def SENTINEL_def)
  have n: "next_stack (iter_stack three) =
             (Inr (PInt 3), three\<lparr>iter_curr := Some (chain [PInt 2, PInt 1])\<rparr>)"
    by (simp add: t iter_stack_def next_stack_def SENTINEL_def)
  have c: "top_frame (three\<lparr>iter_curr := Some (chain [PInt 2, PInt 1])\<rparr>) =
             chain [PInt 3, PInt 2, PInt 1]"
    by (simp add: t)
  have l: "list_stack (three\<lparr>iter_curr := Some (chain [PInt 2, PInt 1])\<rparr>) =
             (Inr [PInt 3, PInt 2, PInt 1], three\<lparr>iter_curr := Some SENTINEL\<rparr>)"
    using list_stack_chain [OF c] by simp
  have b: "bottom (three\<lparr>iter_curr := Some (chain [PInt 2, PInt 1])\<rparr>) =
             (Inr (PInt 1), three\<lparr>iter_curr := Some SENTINEL\<rparr>)"
    using bottom_chain [OF c] by simp
  show ?thesis
    unfolding n fst_conv snd_conv l b
    by (simp add: t iter_stack_def next_stack_def SENTINEL_def)
qed

section \<open>The scenario of the class documentation\<close>

text \<open>
  C5, as the code runs it. After the pushes of 10, 9, 11, 0, 10 on the empty stack
  \<^verbatim>\<open>min()\<close> is 0; one pop returns 10 and \<^verbatim>\<open>min()\<close> is still 0; three pops in all have
  removed 10, 0, 11 and leave \<^verbatim>\<open>min()\<close> at 9; the fourth pop removes 9 and leaves
  \<^verbatim>\<open>min()\<close> at 10; the fifth pop removes 10 and leaves the stack empty.
\<close>

theorem scenario_run:
  "fst (push_all empty_stack [PInt 10, PInt 9, PInt 11, PInt 0, PInt 10]) = Inr () \<and>
   fst (min_stack scenario) = Inr (PInt 0) \<and>
   fst (pop scenario) = Inr (PInt 10) \<and>
   fst (min_stack (snd (pop scenario))) = Inr (PInt 0) \<and>
   fst (pop_n 3 scenario) = Inr [PInt 10, PInt 0, PInt 11] \<and>
   fst (min_stack (snd (pop_n 3 scenario))) = Inr (PInt 9) \<and>
   fst (pop (snd (pop_n 3 scenario))) = Inr (PInt 9) \<and>
   fst (min_stack (snd (pop_n 4 scenario))) = Inr (PInt 10) \<and>
   \<not> is_empty (snd (pop_n 4 scenario)) \<and>
   fst (pop (snd (pop_n 4 scenario))) = Inr (PInt 10) \<and>
   is_empty (snd (pop_n 5 scenario))"
  by (simp add: scenario_def empty_stack_def push_def pop_def py_eq_def min_stack_def is_empty_def
        SENTINEL_def eval_nat_numeral)

text \<open>
  C5, as the claim words it: after the first pop and three further pops \<^verbatim>\<open>min()\<close> would
  be 9 and a final pop would remove 9 and empty the stack. After these four pops
  \<^verbatim>\<open>min()\<close> is 10, and the pop that follows returns 10.
\<close>

theorem scenario_as_claimed_fails:
  "\<not> (fst (min_stack (snd (pop_n 3 (snd (pop scenario))))) = Inr (PInt 9) \<and>
      fst (pop (snd (pop_n 3 (snd (pop scenario))))) = Inr (PInt 9) \<and>
      is_empty (snd (pop (snd (pop_n 3 (snd (pop scenario)))))))"
  by (simp add: scenario_def empty_stack_def push_def pop_def py_eq_def min_stack_def is_empty_def
        SENTINEL_def eval_nat_numeral)

section \<open>The bottom of the stack\<close>

text \<open>
  C7. A stack is built from the empty one by pushes and pops that all succeed. When it
  is empty \<^verbatim>\<open>bottom()\<close> returns \<^verbatim>\<open>None\<close>. When it is not, \<^verbatim>\<open>bottom()\<close> returns the first
  value pushed that is still present, which is the last element of a full traversal from
  the top; and after any further successful pushes and pops that do not remove the bottom
  element \<^verbatim>\<open>bottom()\<close> returns the same value. \<^verbatim>\<open>bottom()\<close> changes neither \<^verbatim>\<open>top\<close> nor
  \<^verbatim>\<open>top_min\<close>.
\<close>

theorem bottom_is_first_pushed:
  assumes "Stack_init [] = Inr s0" and "run_ops s0 ops = Some s"
  shows "(is_empty s \<longrightarrow> fst (bottom s) = Inr PNone) \<and>
         (\<not> is_empty s \<longrightarrow>
            still_present [] ops \<noteq> [] \<and>
            fst (bottom s) = Inr (hd (still_present [] ops)) \<and>
            (\<exists>vs t. list_stack s = (Inr vs, t) \<and> vs \<noteq> [] \<and> fst (bottom s) = Inr (last vs)) \<and>
            (\<forall>more s'. run_ops s more = Some s' \<and>
                 keeps_bottom (length (frame_values (top_frame s))) more \<longrightarrow>
               fst (bottom s') = fst (bottom s))) \<and>
         top_frame (snd (bottom s)) = top_frame s \<and>
         top_min (snd (bottom s)) = top_min s"
proof -
  let ?xs = "rev (still_present [] ops)"
  from run_ops_present [OF chain_init [OF assms(1)] assms(2)]
  have c: "top_frame s = chain ?xs"
    by simp
  note b = bottom_chain [OF c]
  have e: "is_empty s = (?xs = [])"
    by (simp add: is_empty_def c chain_eq_SENTINEL)
  have 1: "is_empty s \<longrightarrow> fst (bottom s) = Inr PNone"
    by (simp add: bottom_def)
  have 2: "top_frame (snd (bottom s)) = top_frame s \<and> top_min (snd (bottom s)) = top_min s"
    using b by simp
  have 3: "still_present [] ops \<noteq> [] \<and>
           fst (bottom s) = Inr (hd (still_present [] ops)) \<and>
           (\<exists>vs t. list_stack s = (Inr vs, t) \<and> vs \<noteq> [] \<and> fst (bottom s) = Inr (last vs)) \<and>
           (\<forall>more s'. run_ops s more = Some s' \<and>
                keeps_bottom (length (frame_values (top_frame s))) more \<longrightarrow>
              fst (bottom s') = fst (bottom s))"
    if ne: "\<not> is_empty s"
  proof -
    from ne e have n: "?xs \<noteq> []"
      by simp
    then have p: "still_present [] ops \<noteq> []"
      by simp
    have bs: "fst (bottom s) = Inr (last ?xs)"
      using b n by simp
    have "last ?xs = hd (still_present [] ops)"
      using p by (simp add: last_rev)
    with bs have f: "fst (bottom s) = Inr (hd (still_present [] ops))"
      by simp
    have l: "\<exists>vs t. list_stack s = (Inr vs, t) \<and> vs \<noteq> [] \<and> fst (bottom s) = Inr (last vs)"
      using list_stack_chain [OF c] n bs by blast
    have k: "fst (bottom s') = fst (bottom s)"
      if r: "run_ops s more = Some s'"
        and kb: "keeps_bottom (length (frame_values (top_frame s))) more" for more s'
    proof -
      have "frame_values (top_frame s) = ?xs"
        by (simp add: c frame_values_chain)
      with kb have "keeps_bottom (length ?xs) more"
        by simp
      from run_ops_keeps_bottom [OF c n r this]
      obtain ys where ys: "top_frame s' = chain ys" "ys \<noteq> []" "last ys = last ?xs"
        by auto
      from bottom_chain [OF ys(1)] ys(2,3) bs show ?thesis
        by simp
    qed
    from p f l k show ?thesis
      by blast
  qed
  from 1 2 3 show ?thesis
    by blast
qed

theorem bottom_is_first_pushed_witness:
  "Stack_init [] = Inr empty_stack \<and>
   run_ops empty_stack [Push (PInt 5), Push (PInt 7), Pop, Push (PInt 6)] =
     Some \<lparr>top_frame = chain [PInt 6, PInt 5], top_min = chain [PInt 5], iter_curr = None\<rparr> \<and>
   \<not> is_empty \<lparr>top_frame = chain [PInt 6, PInt 5], top_min = chain [PInt 5],
                 iter_curr = None\<rparr> \<and>
   still_present [] [Push (PInt 5), Push (PInt 7), Pop, Push (PInt 6)] = [PInt 5, PInt 6] \<and>
   fst (bottom \<lparr>top_frame = chain [PInt 6, PInt 5], top_min = chain [PInt 5],
                iter_curr = None\<rparr>) = Inr (PInt 5) \<and>
   run_ops \<lparr>top_frame = chain [PInt 6, PInt 5], top_min = chain [PInt 5], iter_curr = None\<rparr>
       [Push (PInt 8), Pop, Pop] =
     Some \<lparr>top_frame = chain [PInt 5], top_min = chain [PInt 5], iter_curr = None\<rparr> \<and>
   keeps_bottom (length [PInt 6, PInt 5]) [Push (PInt 8), Pop, Pop] \<and>
   fst (bottom \<lparr>top_frame = chain [PInt 5], top_min = chain [PInt 5], iter_curr = None\<rparr>) =
     Inr (PInt 5) \<and>
   is_empty empty_stack \<and> fst (bottom empty_stack) = Inr PNone"
proof -
  let ?ops = "[Push (PInt 5), Push (PInt 7), Pop, Push (PInt 6)]"
  let ?more = "[Push (PInt 8), Pop, Pop]"
  let ?s = "\<lparr>top_frame = chain [PInt 6, PInt 5], top_min = chain [PInt 5], iter_curr = None\<rparr>"
  let ?s' = "\<lparr>top_frame = chain [PInt 5], top_min = chain [PInt 5], iter_curr = None\<rparr>"
  have h1: "Stack_init [] = Inr empty_stack"
    by (simp add: Stack_init_def empty_stack_def)
  have h2: "run_ops empty_stack ?ops = Some ?s"
    by (simp add: empty_stack_def push_def pop_def py_eq_def is_empty_def SENTINEL_def)
  have h3: "\<not> is_empty ?s"
    by (simp add: is_empty_def SENTINEL_def)
  have h4: "run_ops ?s ?more = Some ?s'"
    by (simp add: push_def pop_def py_eq_def is_empty_def SENTINEL_def)
  have fv: "frame_values (top_frame ?s) = [PInt 6, PInt 5]"
    by (simp add: SENTINEL_def)
  have h5: "keeps_bottom (length (frame_values (top_frame ?s))) ?more"
    unfolding fv by simp
  have sp: "still_present [] ?ops = [PInt 5, PInt 6]"
    by simp
  have h6: "run_ops empty_stack [] = Some empty_stack"
    by simp
  have h7: "is_empty empty_stack"
    by (simp add: is_empty_def empty_stack_def)
  note t = bottom_is_first_pushed [OF h1 h2]
  from t h3 have b1: "fst (bottom ?s) = Inr (hd (still_present [] ?ops))"
    by blast
  from t h3 h4 h5 have b2: "fst (bottom ?s') = fst (bottom ?s)"
    by blast
  from bottom_is_first_pushed [OF h1 h6] h7 have b3: "fst (bottom empty_stack) = Inr PNone"
    by blast
  from b1 sp have b1': "fst (bottom ?s) = Inr (PInt 5)"
    by simp
  from b2 b1' have b2': "fst (bottom ?s') = Inr (PInt 5)"
    by simp
  from h5 fv have h5': "keeps_bottom (length [PInt 6, PInt 5]) ?more"
    by simp
  from h1 h2 h3 sp b1' h4 h5' b2' h7 b3 show ?thesis
    by blast
qed

end
